theory Spec2Isabelle
  imports Main
begin

section \<open>Python text\<close>

text \<open>
  A Python \<^verbatim>\<open>str\<close> is a sequence of Unicode code points. A character is modelled by
  its code point, a text by the list of its code points; \<open>str\<close> turns an ASCII literal
  into such a list.
\<close>

type_synonym pychar = nat
type_synonym pystr = "pychar list"

definition str :: "string \<Rightarrow> pystr" where
  "str s = map of_char s"

abbreviation hyphen :: pychar where "hyphen \<equiv> 45"
abbreviation newline :: pychar where "newline \<equiv> 10"
abbreviation slash :: pychar where "slash \<equiv> 47"
abbreviation star :: pychar where "star \<equiv> 42"

text \<open>
  \<^verbatim>\<open>str.isspace\<close> on one character, which is what \<^verbatim>\<open>strip()\<close> and
  \<^verbatim>\<open>split()\<close> without arguments test: U+0009..U+000D, U+001C..U+0020, U+0085, U+00A0,
  U+1680, U+2000..U+200A, U+2028, U+2029, U+202F, U+205F, U+3000.
\<close>

definition isspace :: "pychar \<Rightarrow> bool" where
  "isspace c \<longleftrightarrow>
     (9 \<le> c \<and> c \<le> 13) \<or> (28 \<le> c \<and> c \<le> 32) \<or> c = 133 \<or> c = 160 \<or> c = 5760 \<or>
     (8192 \<le> c \<and> c \<le> 8202) \<or> c = 8232 \<or> c = 8233 \<or> c = 8239 \<or> c = 8287 \<or> c = 12288"

definition lstrip :: "pystr \<Rightarrow> pystr" where
  "lstrip s = dropWhile isspace s"

definition rstrip :: "pystr \<Rightarrow> pystr" where
  "rstrip s = rev (dropWhile isspace (rev s))"

definition strip :: "pystr \<Rightarrow> pystr" where
  "strip s = rstrip (lstrip s)"

text \<open>\<^verbatim>\<open>s.startswith(p)\<close>.\<close>

definition startswith :: "pystr \<Rightarrow> pystr \<Rightarrow> bool" where
  "startswith s p \<longleftrightarrow> take (length p) s = p"

text \<open>\<^verbatim>\<open>sep.join(xs)\<close>.\<close>

fun join :: "pystr \<Rightarrow> pystr list \<Rightarrow> pystr" where
  "join sep [] = []"
| "join sep [x] = x"
| "join sep (x # y # ys) = x @ sep @ join sep (y # ys)"

text \<open>
  \<^verbatim>\<open>s.split()\<close> without arguments: the maximal runs of non-whitespace characters, in
  order; leading and trailing whitespace yields no empty item.
\<close>

function split :: "pystr \<Rightarrow> pystr list" where
  "split s =
     (case dropWhile isspace s of
        [] \<Rightarrow> []
      | c # cs \<Rightarrow>
          takeWhile (\<lambda>x. \<not> isspace x) (c # cs)
            # split (dropWhile (\<lambda>x. \<not> isspace x) cs))"
  by pat_completeness auto
termination
proof (relation "measure length")
  fix s :: pystr and c cs
  assume d: "dropWhile isspace s = c # cs"
  have "length (dropWhile (\<lambda>x. \<not> isspace x) cs) \<le> length cs"
    by (rule length_dropWhile_le)
  moreover have "length (c # cs) \<le> length s"
    unfolding d [symmetric] by (rule length_dropWhile_le)
  ultimately show "(dropWhile (\<lambda>x. \<not> isspace x) cs, s) \<in> measure length"
    by simp
qed simp

declare split.simps [simp del]

text \<open>
  \<^verbatim>\<open>s.splitlines()\<close>: a line ends at LF, VT, FF, CR, CR LF (one boundary), FS, GS, RS,
  NEL, LS or PS; the boundaries are not kept, and a text that ends with a boundary has
  no empty last line.
\<close>

definition linebreak :: "pychar \<Rightarrow> bool" where
  "linebreak c \<longleftrightarrow>
     (10 \<le> c \<and> c \<le> 13) \<or> (28 \<le> c \<and> c \<le> 30) \<or> c = 133 \<or> c = 8232 \<or> c = 8233"

function splitlines :: "pystr \<Rightarrow> pystr list" where
  "splitlines [] = []"
| "splitlines (c # cs) =
     (let line = takeWhile (\<lambda>x. \<not> linebreak x) (c # cs)
      in case dropWhile (\<lambda>x. \<not> linebreak x) (c # cs) of
           [] \<Rightarrow> [line]
         | b # rest \<Rightarrow>
             line # splitlines (if b = 13 \<and> take 1 rest = [newline] then drop 1 rest else rest))"
  by pat_completeness auto
termination
proof (relation "measure length")
  fix c :: pychar and cs line b rest
  assume d: "dropWhile (\<lambda>x. \<not> linebreak x) (c # cs) = b # rest"
  have "length (b # rest) \<le> length (c # cs)"
    unfolding d [symmetric] by (rule length_dropWhile_le)
  then have "length rest < length (c # cs)" by simp
  moreover have "length (drop 1 rest) \<le> length rest" by simp
  ultimately show
    "((if b = 13 \<and> take 1 rest = [newline] then drop 1 rest else rest), c # cs) \<in> measure length"
    by auto
qed simp

text \<open>
  What ends a line for \<^verbatim>\<open>splitlines\<close>, in front of the text \<open>rest\<close>: one line-break
  character (a CR only when no LF follows it), or CR LF.
\<close>

fun terminator :: "pystr \<Rightarrow> pystr \<Rightarrow> bool" where
  "terminator [b] rest \<longleftrightarrow> linebreak b \<and> \<not> (b = 13 \<and> take 1 rest = [newline])"
| "terminator [b, c] rest \<longleftrightarrow> b = 13 \<and> c = newline"
| "terminator sep rest \<longleftrightarrow> False"

text \<open>Whether a text contains the two characters \<open>x\<close>, \<open>y\<close> next to each other.\<close>

fun has_pair :: "pychar \<Rightarrow> pychar \<Rightarrow> pystr \<Rightarrow> bool" where
  "has_pair x y (a # b # cs) \<longleftrightarrow> (a = x \<and> b = y) \<or> has_pair x y (b # cs)"
| "has_pair x y [c] \<longleftrightarrow> False"
| "has_pair x y [] \<longleftrightarrow> False"

abbreviation has_dd :: "pystr \<Rightarrow> bool" where
  "has_dd \<equiv> has_pair hyphen hyphen"

abbreviation has_open :: "pystr \<Rightarrow> bool" where
  "has_open \<equiv> has_pair slash star"

abbreviation has_close :: "pystr \<Rightarrow> bool" where
  "has_close \<equiv> has_pair star slash"

section \<open>The comment normalizer\<close>

text \<open>
  \<^verbatim>\<open>
  def dash_to_block(sql: str) -> str:
      import re
      return re.sub(r"--[^\n]*", lambda m: "/* " + m.group(0)[2:].strip() + " */", sql)
  \<close>
  \<^verbatim>\<open>re.sub\<close> scans from the left for the leftmost match, replaces it and goes on behind
  it. A match starts at two hyphens and, the star being greedy, runs up to the next LF or
  the end of the text; \<^verbatim>\<open>m.group(0)[2:]\<close> is that run without the two hyphens.
\<close>

function dash_to_block :: "pystr \<Rightarrow> pystr" where
  "dash_to_block [] = []"
| "dash_to_block [c] = [c]"
| "dash_to_block (a # b # cs) =
     (if a = hyphen \<and> b = hyphen
      then str ''/* '' @ strip (takeWhile (\<lambda>c. c \<noteq> newline) cs) @ str '' */''
             @ dash_to_block (dropWhile (\<lambda>c. c \<noteq> newline) cs)
      else a # dash_to_block (b # cs))"
  by pat_completeness auto
termination
  by (relation "measure length")
     (auto simp: less_Suc_eq_le intro: le_trans [OF length_dropWhile_le])

section \<open>The comment stripper\<close>

text \<open>
  \<^verbatim>\<open>
  sql = re.sub(r"/\*.*?\*/", " ", sql, flags=re.S)
  sql = "\n".join([ln for ln in sql.splitlines() if not ln.strip().startswith("--")])
  \<close>
  In the first statement a match starts at \<^verbatim>\<open>/*\<close> and, the star being lazy and the dot
  matching every character, ends with the first \<^verbatim>\<open>*/\<close> that starts behind the opening
  two characters; \<open>find_close\<close> returns the text behind that first \<^verbatim>\<open>*/\<close>. Where there is
  none the pattern does not match at this position and the scan moves on by one character.
\<close>

fun find_close :: "pystr \<Rightarrow> pystr option" where
  "find_close (a # b # cs) = (if a = star \<and> b = slash then Some cs else find_close (b # cs))"
| "find_close [c] = None"
| "find_close [] = None"

function sub_block_comments :: "pystr \<Rightarrow> pystr" where
  "sub_block_comments [] = []"
| "sub_block_comments [c] = [c]"
| "sub_block_comments (a # b # cs) =
     (if a = slash \<and> b = star
      then (case find_close cs of
              Some rest \<Rightarrow> str '' '' @ sub_block_comments rest
            | None \<Rightarrow> a # sub_block_comments (b # cs))
      else a # sub_block_comments (b # cs))"
  by pat_completeness auto
termination
proof (relation "measure length")
  have shorter: "length r < length s" if "find_close s = Some r" for s r
    using that by (induction s rule: find_close.induct) (auto split: if_splits)
  fix a b :: pychar and cs rest
  assume "find_close cs = Some rest"
  then show "(rest, a # b # cs) \<in> measure length"
    using shorter [of cs rest] by simp
qed simp_all

definition drop_comment_lines :: "pystr \<Rightarrow> pystr" where
  "drop_comment_lines sql =
     join [newline]
       (filter (\<lambda>ln. \<not> startswith (strip ln) (str ''--'')) (splitlines sql))"

text \<open>
  The specification's wording of the best-effort minifier, for comparison with the code:
  every maximal run of whitespace is replaced by a single space.
\<close>

function collapse_runs :: "pystr \<Rightarrow> pystr" where
  "collapse_runs [] = []"
| "collapse_runs (c # cs) =
     (if isspace c then 32 # collapse_runs (dropWhile isspace cs) else c # collapse_runs cs)"
  by pat_completeness auto
termination
  by (relation "measure length") (auto simp: less_Suc_eq_le intro: length_dropWhile_le)

section \<open>Options and the two libraries\<close>

text \<open>
  The sidebar widgets set module-level variables that both formatting functions read. A
  select box returns one of its option strings, so \<^verbatim>\<open>keyword_case\<close> and
  \<^verbatim>\<open>identifier_case\<close> are enumerations, with the option string as name; the number
  inputs are integers.
\<close>

datatype keyword_case = Upper | Lower | Capitalize

datatype identifier_case = Preserve | IdUpper | IdLower

fun keyword_case_name :: "keyword_case \<Rightarrow> pystr" where
  "keyword_case_name Upper = str ''upper''"
| "keyword_case_name Lower = str ''lower''"
| "keyword_case_name Capitalize = str ''capitalize''"

fun identifier_case_name :: "identifier_case \<Rightarrow> pystr" where
  "identifier_case_name Preserve = str ''preserve''"
| "identifier_case_name IdUpper = str ''upper''"
| "identifier_case_name IdLower = str ''lower''"

text \<open>
  \<^verbatim>\<open>str.upper()\<close> and \<^verbatim>\<open>str.lower()\<close> as far as the code uses them: on the names of the
  keyword cases, which are ASCII letters.
\<close>

definition upper_ascii :: "pystr \<Rightarrow> pystr" where
  "upper_ascii s = map (\<lambda>c. if 97 \<le> c \<and> c \<le> 122 then c - 32 else c) s"

definition lower_ascii :: "pystr \<Rightarrow> pystr" where
  "lower_ascii s = map (\<lambda>c. if 65 \<le> c \<and> c \<le> 90 then c + 32 else c) s"

record options =
  dialect :: pystr
  keyword_case :: keyword_case
  identifier_case :: identifier_case
  indent :: int
  width :: int
  leading_comma :: bool
  normalize :: bool
  remove_comments :: bool
  compact :: bool
  single_line_safe :: bool

text \<open>The values the widgets start with.\<close>

definition default_options :: options where
  "default_options =
     \<lparr>dialect = str ''spark'', keyword_case = Upper, identifier_case = Preserve,
      indent = 4, width = 120, leading_comma = False, normalize = False,
      remove_comments = False, compact = False, single_line_safe = False\<rparr>"

text \<open>
  The libraries \<^verbatim>\<open>sqlglot\<close> and \<^verbatim>\<open>sqlparse\<close> are not part of the repository. They are
  parameters of the model: a library is a record of the functions the code calls, each
  returning its value or raising an exception; the type \<open>'e\<close> stands for the exceptions
  derived from \<^verbatim>\<open>Exception\<close>, which are the ones \<^verbatim>\<open>except Exception\<close> catches
  (an interrupt or an exit request is not an error of the library and is not modelled).
  The keyword arguments of each call are a record.
\<close>

record sql_kwargs =
  ts_pretty :: bool
  ts_keyword_case :: pystr
  ts_identifier_case :: "pystr option"
  ts_indent :: int
  ts_max_text_width :: int
  ts_leading_comma :: bool
  ts_normalize :: bool

record transpile_kwargs =
  tp_read :: pystr
  tp_pretty :: bool
  tp_identity :: "bool option"

record format_kwargs =
  sp_keyword_case :: pystr
  sp_reindent :: bool
  sp_indent_width :: "int option"
  sp_strip_comments :: bool

record ('e, 't) sqlglot =
  parse_one :: "pystr \<Rightarrow> pystr \<Rightarrow> 'e + 't"
  tree_sql :: "'t \<Rightarrow> sql_kwargs \<Rightarrow> 'e + pystr"
  transpile :: "pystr \<Rightarrow> transpile_kwargs \<Rightarrow> 'e + pystr list"

record 'e sqlparse =
  sqlparse_format :: "pystr \<Rightarrow> format_kwargs \<Rightarrow> 'e + pystr"

text \<open>
  A formatting function returns its value or the exception it raises, together with the
  library calls it made, in order.
\<close>

datatype 't call =
    ParseOne pystr pystr
  | TreeSql 't sql_kwargs
  | Transpile pystr transpile_kwargs
  | SqlparseFormat pystr format_kwargs

datatype 'e exn = LibraryError 'e | IndexError | RuntimeError pystr

type_synonym ('e, 't) outcome = "('e exn + pystr) \<times> 't call list"

fun is_transpile :: "'t call \<Rightarrow> bool" where
  "is_transpile (Transpile sql kw) = True"
| "is_transpile c = False"

section \<open>The formatting functions\<close>

text \<open>
  Both functions start with the same two optional steps:
  \<^verbatim>\<open>
  if single_line_safe:
      sql = dash_to_block(sql)
  if remove_comments:
      import re
      sql = re.sub(r"/\*.*?\*/", " ", sql, flags=re.S)
      sql = "\n".join([ln for ln in sql.splitlines() if not ln.strip().startswith("--")])
  \<close>
\<close>

definition preprocess :: "options \<Rightarrow> pystr \<Rightarrow> pystr" where
  "preprocess opts sql =
     (let sql = (if single_line_safe opts then dash_to_block sql else sql);
          sql = (if remove_comments opts
                 then drop_comment_lines (sub_block_comments sql) else sql)
      in sql)"

text \<open>
  \<^verbatim>\<open>sqlglot.transpile(...)[0]\<close>: the call raises, or the index does on an empty list, or
  the first item is the value.
\<close>

definition first_item :: "'e + pystr list \<Rightarrow> 'e exn + pystr" where
  "first_item r =
     (case r of
        Inl e \<Rightarrow> Inl (LibraryError e)
      | Inr [] \<Rightarrow> Inl IndexError
      | Inr (x # xs) \<Rightarrow> Inr x)"

text \<open>
  \<^verbatim>\<open>sqlglot.transpile(sql, read=dialect, pretty=False, identity=True)\<close> in compact mode,
  \<^verbatim>\<open>sqlglot.transpile(sql, read=dialect, pretty=True)\<close> in the handler of the pretty path,
  and the keyword arguments of \<^verbatim>\<open>tree.sql\<close>.
\<close>

definition compact_kwargs :: "options \<Rightarrow> transpile_kwargs" where
  "compact_kwargs opts = \<lparr>tp_read = dialect opts, tp_pretty = False, tp_identity = Some True\<rparr>"

definition retry_kwargs :: "options \<Rightarrow> transpile_kwargs" where
  "retry_kwargs opts = \<lparr>tp_read = dialect opts, tp_pretty = True, tp_identity = None\<rparr>"

definition pretty_kwargs :: "options \<Rightarrow> sql_kwargs" where
  "pretty_kwargs opts =
     \<lparr>ts_pretty = True,
      ts_keyword_case = keyword_case_name (keyword_case opts),
      ts_identifier_case =
        (if identifier_case opts = Preserve then None
         else Some (identifier_case_name (identifier_case opts))),
      ts_indent = indent opts,
      ts_max_text_width = width opts,
      ts_leading_comma = leading_comma opts,
      ts_normalize = normalize opts\<rparr>"

text \<open>
  The body of the outer \<^verbatim>\<open>try\<close> of the pretty path:
  \<^verbatim>\<open>
  tree = parse_one(sql, read=dialect)
  formatted = tree.sql(pretty=True, keyword_case=keyword_case, ...)
  return formatted
  \<close>
\<close>

definition parse_then_render ::
  "('e, 't) sqlglot \<Rightarrow> options \<Rightarrow> pystr \<Rightarrow> ('e, 't) outcome" where
  "parse_then_render lib opts sql =
     (case parse_one lib sql (dialect opts) of
        Inl e \<Rightarrow> (Inl (LibraryError e), [ParseOne sql (dialect opts)])
      | Inr tree \<Rightarrow>
          (case tree_sql lib tree (pretty_kwargs opts) of
             Inl e \<Rightarrow>
               (Inl (LibraryError e),
                [ParseOne sql (dialect opts), TreeSql tree (pretty_kwargs opts)])
           | Inr formatted \<Rightarrow>
               (Inr formatted,
                [ParseOne sql (dialect opts), TreeSql tree (pretty_kwargs opts)])))"

text \<open>
  \<^verbatim>\<open>
  if compact:
      try:
          return sqlglot.transpile(sql, read=dialect, pretty=False, identity=True)[0]
      except Exception:
          return " ".join(sql.split())
  try:
      ...
  except Exception as e:
      try:
          return sqlglot.transpile(sql, read=dialect, pretty=True)[0]
      except Exception:
          raise e
  \<close>
\<close>

definition format_with_sqlglot ::
  "('e, 't) sqlglot \<Rightarrow> options \<Rightarrow> pystr \<Rightarrow> ('e, 't) outcome" where
  "format_with_sqlglot lib opts sql0 =
     (let sql = preprocess opts sql0 in
      if compact opts then
        (case first_item (transpile lib sql (compact_kwargs opts)) of
           Inr r \<Rightarrow> (Inr r, [Transpile sql (compact_kwargs opts)])
         | Inl _ \<Rightarrow>
             (Inr (join (str '' '') (split sql)), [Transpile sql (compact_kwargs opts)]))
      else
        (case parse_then_render lib opts sql of
           (Inr formatted, calls) \<Rightarrow> (Inr formatted, calls)
         | (Inl e, calls) \<Rightarrow>
             (case first_item (transpile lib sql (retry_kwargs opts)) of
                Inr r \<Rightarrow> (Inr r, calls @ [Transpile sql (retry_kwargs opts)])
              | Inl _ \<Rightarrow> (Inl e, calls @ [Transpile sql (retry_kwargs opts)]))))"

text \<open>
  \<^verbatim>\<open>kw_case = keyword_case.upper() if keyword_case != "capitalize" else "upper"\<close>; both
  calls of \<^verbatim>\<open>sqlparse.format\<close> pass \<^verbatim>\<open>keyword_case=kw_case.lower()\<close> and
  \<^verbatim>\<open>strip_comments=remove_comments\<close>, the compact one \<^verbatim>\<open>reindent=False\<close>, the other
  \<^verbatim>\<open>reindent=True, indent_width=indent\<close>.
\<close>

definition kw_case :: "options \<Rightarrow> pystr" where
  "kw_case opts =
     (if keyword_case opts \<noteq> Capitalize
      then upper_ascii (keyword_case_name (keyword_case opts))
      else str ''upper'')"

definition format_kwargs_of :: "options \<Rightarrow> format_kwargs" where
  "format_kwargs_of opts =
     (if compact opts
      then \<lparr>sp_keyword_case = lower_ascii (kw_case opts), sp_reindent = False,
            sp_indent_width = None, sp_strip_comments = remove_comments opts\<rparr>
      else \<lparr>sp_keyword_case = lower_ascii (kw_case opts), sp_reindent = True,
            sp_indent_width = Some (indent opts), sp_strip_comments = remove_comments opts\<rparr>)"

text \<open>
  \<^verbatim>\<open>HAVE_SQLPARSE\<close> is whether the import succeeded: the library is there or not.
  \<^verbatim>\<open>
  if not HAVE_SQLPARSE:
      raise RuntimeError("Neither sqlglot nor sqlparse available.")
  \<close>
\<close>

definition format_with_sqlparse ::
  "'e sqlparse option \<Rightarrow> options \<Rightarrow> pystr \<Rightarrow> ('e, 't) outcome" where
  "format_with_sqlparse have_sqlparse opts sql0 =
     (case have_sqlparse of
        None \<Rightarrow> (Inl (RuntimeError (str ''Neither sqlglot nor sqlparse available.'')), [])
      | Some lib \<Rightarrow>
          (let sql = preprocess opts sql0 in
           (case sqlparse_format lib sql (format_kwargs_of opts) of
              Inl e \<Rightarrow> (Inl (LibraryError e), [SqlparseFormat sql (format_kwargs_of opts)])
            | Inr r \<Rightarrow> (Inr r, [SqlparseFormat sql (format_kwargs_of opts)]))))"

text \<open>
  The action of the button: a warning on blank input, else the formatted text is shown, or
  the error is.
  \<^verbatim>\<open>
  if not raw_sql or not raw_sql.strip():
      st.warning("Please paste or upload some SQL first.")
  else:
      try:
          if HAVE_SQLGLOT:
              pretty_sql = format_with_sqlglot(raw_sql)
          else:
              pretty_sql = format_with_sqlparse(raw_sql)
          out_container.code(pretty_sql, language="sql")
          ...
      except Exception as e:
          st.error(f"Failed to format: {e}")
  \<close>
\<close>

datatype 'e shown = Warning | Code pystr | Error "'e exn"

definition apply_btn ::
  "('e, 't) sqlglot option \<Rightarrow> 'e sqlparse option \<Rightarrow> options \<Rightarrow> pystr
     \<Rightarrow> 'e shown \<times> 't call list" where
  "apply_btn have_sqlglot have_sqlparse opts raw_sql =
     (if raw_sql = [] \<or> strip raw_sql = [] then (Warning, [])
      else
        (case (case have_sqlglot of
                 Some lib \<Rightarrow> format_with_sqlglot lib opts raw_sql
               | None \<Rightarrow> format_with_sqlparse have_sqlparse opts raw_sql) of
           (Inr pretty_sql, calls) \<Rightarrow> (Code pretty_sql, calls)
         | (Inl e, calls) \<Rightarrow> (Error e, calls)))"

section \<open>Example libraries\<close>

text \<open>
  Concrete libraries for the examples: one whose every call raises, one whose parser raises
  and whose \<^verbatim>\<open>transpile\<close> returns the text as it is, and a \<^verbatim>\<open>sqlparse\<close> that returns
  the text as it is.
\<close>

definition failing_sqlglot :: "(pystr, unit) sqlglot" where
  "failing_sqlglot =
     \<lparr>parse_one = (\<lambda>sql read. Inl (str ''ParseError'')),
      tree_sql = (\<lambda>tree kw. Inl (str ''RenderError'')),
      transpile = (\<lambda>sql kw. Inl (str ''TokenError''))\<rparr>"

definition echo_sqlparse :: "pystr sqlparse" where
  "echo_sqlparse = \<lparr>sqlparse_format = (\<lambda>sql kw. Inr sql)\<rparr>"

definition transpile_only_sqlglot :: "(pystr, unit) sqlglot" where
  "transpile_only_sqlglot =
     \<lparr>parse_one = (\<lambda>sql read. Inl (str ''ParseError'')),
      tree_sql = (\<lambda>tree kw. Inl (str ''RenderError'')),
      transpile = (\<lambda>sql kw. Inr [sql])\<rparr>"

section \<open>Properties of the text functions\<close>

lemma has_pair_iff: "has_pair x y s \<longleftrightarrow> (\<exists>u v. s = u @ x # y # v)"
proof (induction x y s rule: has_pair.induct)
  case (1 x y a b cs)
  show ?case
  proof
    assume "has_pair x y (a # b # cs)"
    then consider "a = x \<and> b = y" | "has_pair x y (b # cs)" by auto
    then show "\<exists>u v. a # b # cs = u @ x # y # v"
    proof cases
      case 1
      then have "a # b # cs = [] @ x # y # cs" by simp
      then show ?thesis by blast
    next
      case 2
      with "1.IH" obtain u v where "b # cs = u @ x # y # v" by blast
      then have "a # b # cs = (a # u) @ x # y # v" by simp
      then show ?thesis by blast
    qed
  next
    assume "\<exists>u v. a # b # cs = u @ x # y # v"
    then obtain u v where uv: "a # b # cs = u @ x # y # v" by blast
    show "has_pair x y (a # b # cs)"
    proof (cases u)
      case Nil
      with uv show ?thesis by simp
    next
      case (Cons h t)
      with uv have "b # cs = t @ x # y # v" by simp
      with "1.IH" have "has_pair x y (b # cs)" by blast
      then show ?thesis by simp
    qed
  qed
next
  case (2 x y c)
  show ?case by (auto simp: Cons_eq_append_conv)
next
  case (3 x y)
  show ?case by simp
qed

lemma dash_to_block_fixed: "\<not> has_dd s \<Longrightarrow> dash_to_block s = s"
  by (induction s rule: dash_to_block.induct) auto

lemma dash_to_block_moves: "has_dd s \<Longrightarrow> dash_to_block s \<noteq> s"
  by (induction s rule: dash_to_block.induct) (auto simp: str_def)

lemma dash_to_block_prefix:
  "\<not> has_dd pre \<Longrightarrow> pre = [] \<or> last pre \<noteq> hyphen \<Longrightarrow>
   dash_to_block (pre @ hyphen # hyphen # t) = pre @ dash_to_block (hyphen # hyphen # t)"
proof (induction pre rule: dash_to_block.induct)
  case 1
  show ?case by simp
next
  case (2 c)
  then show ?case by simp
next
  case (3 a b cs)
  then show ?case by (auto split: if_splits)
qed

lemma dash_to_block_marker:
  assumes "newline \<notin> set rest" and "after = [] \<or> hd after = newline"
  shows "dash_to_block (hyphen # hyphen # rest @ after)
           = str ''/* '' @ strip rest @ str '' */'' @ dash_to_block after"
proof -
  have t: "takeWhile (\<lambda>c. c \<noteq> newline) (rest @ after) = rest"
    using assms by (cases after) (auto simp: takeWhile_tail takeWhile_eq_all_conv)
  have d: "dropWhile (\<lambda>c. c \<noteq> newline) (rest @ after) = after"
    using assms by (cases after) (auto simp: dropWhile_append3 dropWhile_eq_Nil_conv)
  show ?thesis by (simp add: t d)
qed

lemma dash_to_block_after_newline:
  "before = [] \<or> last before = newline \<Longrightarrow>
   dash_to_block (before @ s) = dash_to_block before @ dash_to_block s"
proof (induction before rule: dash_to_block.induct)
  case 1
  show ?case by simp
next
  case (2 c)
  then show ?case by (cases s) auto
next
  case (3 a b cs)
  show ?case
  proof (cases "a = hyphen \<and> b = hyphen")
    case False
    with 3 show ?thesis by (auto split: if_splits)
  next
    case True
    from 3(3) True have ne: "cs \<noteq> []" and l: "last cs = newline" by (auto split: if_splits)
    then have mem: "newline \<in> set cs" using last_in_set by metis
    let ?P = "\<lambda>c. c \<noteq> newline"
    have t: "takeWhile ?P (cs @ s) = takeWhile ?P cs"
      using mem by (simp add: takeWhile_append1)
    have d: "dropWhile ?P (cs @ s) = dropWhile ?P cs @ s"
      using mem by (simp add: dropWhile_append1)
    have dne: "dropWhile ?P cs \<noteq> []" using mem by (auto simp: dropWhile_eq_Nil_conv)
    have "last (dropWhile ?P cs) = last cs"
      using dne by (metis takeWhile_dropWhile_id last_appendR)
    with l 3(1) True have "dash_to_block (dropWhile ?P cs @ s)
        = dash_to_block (dropWhile ?P cs) @ dash_to_block s" by simp
    with True show ?thesis by (simp add: t d)
  qed
qed

lemma has_pair_appendI: "has_pair x y b \<Longrightarrow> has_pair x y (a @ b @ c)"
proof -
  assume "has_pair x y b"
  then obtain u v where "b = u @ x # y # v" unfolding has_pair_iff by blast
  then have "a @ b @ c = (a @ u) @ x # y # (v @ c)" by simp
  then show ?thesis unfolding has_pair_iff by blast
qed

lemma has_dd_strip: "has_dd s \<Longrightarrow> has_dd (strip s)"
proof -
  assume "has_dd s"
  then obtain u v where s: "s = u @ hyphen # hyphen # v" unfolding has_pair_iff by blast
  have h: "\<not> isspace hyphen" by (simp add: isspace_def)
  have l: "lstrip s = dropWhile isspace u @ hyphen # hyphen # v"
    unfolding lstrip_def s using h by (simp add: dropWhile_append3)
  have "rev (lstrip s) = rev v @ hyphen # hyphen # rev (dropWhile isspace u)"
    unfolding l by simp
  then have "dropWhile isspace (rev (lstrip s))
      = dropWhile isspace (rev v) @ hyphen # hyphen # rev (dropWhile isspace u)"
    using h by (simp add: dropWhile_append3)
  then have "strip s = dropWhile isspace u @ hyphen # hyphen # rev (dropWhile isspace (rev v))"
    unfolding strip_def rstrip_def by simp
  then show ?thesis unfolding has_pair_iff by blast
qed

text \<open>
  Claim C6. A text that contains no double-hyphen sequence (there are no \<open>u\<close>, \<open>v\<close> with
  the text equal to \<open>u\<close>, two hyphens, \<open>v\<close>) is returned unchanged by \<open>dash_to_block\<close>.
\<close>
theorem dash_to_block_unchanged:
  "\<not> (\<exists>u v. s = u @ str ''--'' @ v) \<Longrightarrow> dash_to_block s = s"
proof -
  assume "\<not> (\<exists>u v. s = u @ str ''--'' @ v)"
  then have "\<not> has_dd s" unfolding has_pair_iff by (simp add: str_def)
  then show ?thesis by (rule dash_to_block_fixed)
qed

theorem dash_to_block_unchanged_witness:
  "\<not> (\<exists>u v. str ''SELECT a - b /* c */ FROM t'' = u @ str ''--'' @ v)
   \<and> dash_to_block (str ''SELECT a - b /* c */ FROM t'') = str ''SELECT a - b /* c */ FROM t''"
proof -
  have "\<not> has_dd (str ''SELECT a - b /* c */ FROM t'')" by (simp add: str_def)
  then have h: "\<not> (\<exists>u v. str ''SELECT a - b /* c */ FROM t'' = u @ str ''--'' @ v)"
    unfolding has_pair_iff by (simp add: str_def)
  from h dash_to_block_unchanged [OF h] show ?thesis by blast
qed

text \<open>
  Claim C5. On a text without a double-hyphen sequence (\<open>has_dd\<close>, characterised by
  \<open>has_pair_iff\<close>), such as an output that holds block comments only, applying
  \<open>dash_to_block\<close> twice gives what applying it once gives.
\<close>
theorem dash_to_block_idempotent:
  "\<not> has_dd s \<Longrightarrow> dash_to_block (dash_to_block s) = dash_to_block s"
  by (simp add: dash_to_block_fixed)

theorem dash_to_block_idempotent_witness:
  "\<not> has_dd (str ''SELECT 1 /* note */'')
   \<and> dash_to_block (dash_to_block (str ''SELECT 1 /* note */''))
       = dash_to_block (str ''SELECT 1 /* note */'')"
proof -
  have h: "\<not> has_dd (str ''SELECT 1 /* note */'')" by (simp add: str_def)
  from h dash_to_block_idempotent [OF h] show ?thesis by blast
qed

text \<open>
  Claim C1. Take any text and any line of it that contains a marker: \<open>before\<close> is the text
  up to the line (empty or ending with a line feed), \<open>pre\<close> the part of the line before its
  first marker (no double hyphen in it, and no hyphen right before the marker), \<open>rest\<close> the
  part behind the two hyphens up to the end of the line, \<open>after\<close> the text from the line
  feed on. Then \<open>dash_to_block\<close> keeps \<open>pre\<close> as it is, trailing whitespace included, and
  puts in place of the marker and \<open>rest\<close> the block comment with \<open>rest\<close> stripped of leading
  and trailing whitespace; the text before and behind the line is rewritten on its own. On
  \<^verbatim>\<open>SELECT 1 -- note\<close> the result is \<^verbatim>\<open>SELECT 1 /* note */\<close>.
\<close>
theorem dash_to_block_line:
  assumes "before = [] \<or> last before = newline"
    and "\<not> has_dd pre" and "pre = [] \<or> last pre \<noteq> hyphen"
    and "newline \<notin> set rest"
    and "after = [] \<or> hd after = newline"
  shows "dash_to_block (before @ pre @ str ''--'' @ rest @ after)
           = dash_to_block before @ pre @ str ''/* '' @ strip rest @ str '' */''
               @ dash_to_block after
         \<and> dash_to_block (str ''SELECT 1 -- note'') = str ''SELECT 1 /* note */''"
proof
  have "dash_to_block (before @ pre @ str ''--'' @ rest @ after)
      = dash_to_block before @ dash_to_block (pre @ hyphen # hyphen # rest @ after)"
    using assms(1) by (simp add: dash_to_block_after_newline str_def)
  also have "dash_to_block (pre @ hyphen # hyphen # rest @ after)
      = pre @ dash_to_block (hyphen # hyphen # rest @ after)"
    using assms(2,3) by (rule dash_to_block_prefix)
  also have "dash_to_block (hyphen # hyphen # rest @ after)
      = str ''/* '' @ strip rest @ str '' */'' @ dash_to_block after"
    using assms(4,5) by (rule dash_to_block_marker)
  finally show "dash_to_block (before @ pre @ str ''--'' @ rest @ after)
           = dash_to_block before @ pre @ str ''/* '' @ strip rest @ str '' */''
               @ dash_to_block after" .
  show "dash_to_block (str ''SELECT 1 -- note'') = str ''SELECT 1 /* note */''"
    by (simp add: str_def strip_def lstrip_def rstrip_def isspace_def)
qed

theorem dash_to_block_line_witness:
  "(str ''a -- b'' @ [newline] = [] \<or> last (str ''a -- b'' @ [newline]) = newline)
   \<and> \<not> has_dd (str ''SELECT 1  '')
   \<and> (str ''SELECT 1  '' = [] \<or> last (str ''SELECT 1  '') \<noteq> hyphen)
   \<and> newline \<notin> set (str ''  note '')
   \<and> (newline # str ''FROM t'' = [] \<or> hd (newline # str ''FROM t'') = newline)
   \<and> dash_to_block ((str ''a -- b'' @ [newline]) @ str ''SELECT 1  '' @ str ''--''
         @ str ''  note '' @ newline # str ''FROM t'')
       = str ''a /* b */'' @ [newline] @ str ''SELECT 1  /* note */'' @ newline # str ''FROM t''"
proof -
  have h1: "str ''a -- b'' @ [newline] = [] \<or> last (str ''a -- b'' @ [newline]) = newline"
    by simp
  have h2: "\<not> has_dd (str ''SELECT 1  '')" by (simp add: str_def)
  have h3: "str ''SELECT 1  '' = [] \<or> last (str ''SELECT 1  '') \<noteq> hyphen"
    by (simp add: str_def)
  have h4: "newline \<notin> set (str ''  note '')" by (simp add: str_def)
  have h5: "newline # str ''FROM t'' = [] \<or> hd (newline # str ''FROM t'') = newline"
    by simp
  have b: "dash_to_block (str ''a -- b'' @ [newline]) = str ''a /* b */'' @ [newline]"
    by (simp add: str_def strip_def lstrip_def rstrip_def isspace_def)
  have s: "strip (str ''  note '') = str ''note''"
    by (simp add: str_def strip_def lstrip_def rstrip_def isspace_def)
  have a: "dash_to_block (newline # str ''FROM t'') = newline # str ''FROM t''"
    by (simp add: str_def)
  from dash_to_block_line [OF h1 h2 h3 h4 h5]
  have "dash_to_block ((str ''a -- b'' @ [newline]) @ str ''SELECT 1  '' @ str ''--''
         @ str ''  note '' @ newline # str ''FROM t'')
       = str ''a /* b */'' @ [newline] @ str ''SELECT 1  /* note */'' @ newline # str ''FROM t''"
    unfolding b s a by (simp add: str_def)
  with h1 h2 h3 h4 h5 show ?thesis by blast
qed

text \<open>
  Claim C9. When the part of a line behind its first marker contains a further double
  hyphen, \<open>dash_to_block\<close> makes one rewrite from the first marker to the end of the line;
  the comment body, and so the output, still contains a double hyphen, and a second
  application changes the output: \<open>dash_to_block\<close> is not idempotent on such input. The
  witness is the line \<^verbatim>\<open>x -- a -- b\<close>, which becomes \<^verbatim>\<open>x /* a -- b */\<close>, and that
  becomes \<^verbatim>\<open>x /* a /* b */ */\<close>.
\<close>
theorem dash_to_block_second_marker:
  assumes "\<not> has_dd pre" and "pre = [] \<or> last pre \<noteq> hyphen"
    and "newline \<notin> set rest" and "has_dd rest"
    and "after = [] \<or> hd after = newline"
  shows "dash_to_block (pre @ str ''--'' @ rest @ after)
           = pre @ str ''/* '' @ strip rest @ str '' */'' @ dash_to_block after
         \<and> has_dd (strip rest)
         \<and> has_dd (dash_to_block (pre @ str ''--'' @ rest @ after))
         \<and> dash_to_block (dash_to_block (pre @ str ''--'' @ rest @ after))
             \<noteq> dash_to_block (pre @ str ''--'' @ rest @ after)"
proof -
  let ?out = "dash_to_block (pre @ str ''--'' @ rest @ after)"
  have "?out = pre @ dash_to_block (hyphen # hyphen # rest @ after)"
    using dash_to_block_prefix [OF assms(1,2)] by (simp add: str_def)
  then have out: "?out = pre @ str ''/* '' @ strip rest @ str '' */'' @ dash_to_block after"
    using dash_to_block_marker [OF assms(3,5)] by simp
  have body: "has_dd (strip rest)" using assms(4) by (rule has_dd_strip)
  then have "has_dd ((pre @ str ''/* '') @ strip rest @ (str '' */'' @ dash_to_block after))"
    by (rule has_pair_appendI)
  with out have dd: "has_dd ?out" by simp
  then have "dash_to_block ?out \<noteq> ?out" by (rule dash_to_block_moves)
  with out body dd show ?thesis by blast
qed

theorem dash_to_block_second_marker_witness:
  "\<not> has_dd (str ''x '') \<and> (str ''x '' = [] \<or> last (str ''x '') \<noteq> hyphen)
   \<and> newline \<notin> set (str '' a -- b'') \<and> has_dd (str '' a -- b'')
   \<and> dash_to_block (str ''x -- a -- b'') = str ''x /* a -- b */''
   \<and> has_dd (str ''x /* a -- b */'')
   \<and> dash_to_block (str ''x /* a -- b */'') = str ''x /* a /* b */ */''
   \<and> dash_to_block (dash_to_block (str ''x -- a -- b'')) \<noteq> dash_to_block (str ''x -- a -- b'')"
proof -
  have h1: "\<not> has_dd (str ''x '')" by (simp add: str_def)
  have h2: "str ''x '' = [] \<or> last (str ''x '') \<noteq> hyphen" by (simp add: str_def)
  have h3: "newline \<notin> set (str '' a -- b'')" by (simp add: str_def)
  have h4: "has_dd (str '' a -- b'')" by (simp add: str_def)
  have h5: "([]::pystr) = [] \<or> hd ([]::pystr) = newline" by simp
  have e: "str ''x '' @ str ''--'' @ str '' a -- b'' @ [] = str ''x -- a -- b''"
    by (simp add: str_def)
  have s: "strip (str '' a -- b'') = str ''a -- b''"
    by (simp add: str_def strip_def lstrip_def rstrip_def isspace_def)
  have o: "str ''x '' @ str ''/* '' @ str ''a -- b'' @ str '' */'' @ dash_to_block [] = str ''x /* a -- b */''"
    by (simp add: str_def)
  have again: "dash_to_block (str ''x /* a -- b */'') = str ''x /* a /* b */ */''"
    by (simp add: str_def strip_def lstrip_def rstrip_def isspace_def)
  from dash_to_block_second_marker [OF h1 h2 h3 h4 h5]
  have "dash_to_block (str ''x -- a -- b'') = str ''x /* a -- b */''
        \<and> has_dd (dash_to_block (str ''x -- a -- b''))
        \<and> dash_to_block (dash_to_block (str ''x -- a -- b'')) \<noteq> dash_to_block (str ''x -- a -- b'')"
    unfolding e s o by blast
  moreover from this have "has_dd (str ''x /* a -- b */'')" by metis
  ultimately show ?thesis using h1 h2 h3 h4 again by blast
qed


section \<open>Properties of the comment stripper\<close>

lemma has_pair_Cons: "has_pair x y cs \<Longrightarrow> has_pair x y (a # cs)"
  by (cases cs) auto

lemma find_close_None: "\<not> has_close s \<Longrightarrow> find_close s = None"
  by (induction s rule: find_close.induct) auto

lemma find_close_first:
  "\<not> has_close body \<Longrightarrow> find_close (body @ star # slash # rest) = Some rest"
  by (induction body rule: find_close.induct) auto

lemma sub_block_comments_no_close: "\<not> has_close s \<Longrightarrow> sub_block_comments s = s"
proof (induction s rule: sub_block_comments.induct)
  case (3 a b cs)
  from 3(4) have nb: "\<not> has_close (b # cs)" by auto
  then have nc: "\<not> has_close cs" using has_pair_Cons by blast
  then have "find_close cs = None" by (rule find_close_None)
  with 3 nb show ?case by auto
qed auto

lemma sub_block_comments_no_close1:
  "\<not> has_close t \<Longrightarrow> sub_block_comments (y # t) = y # t"
proof (cases t)
  case Nil
  then show ?thesis by simp
next
  case (Cons b cs)
  assume n: "\<not> has_close t"
  with Cons have "\<not> has_close cs" using has_pair_Cons by blast
  then have "find_close cs = None" by (rule find_close_None)
  moreover from n Cons have "sub_block_comments (b # cs) = b # cs"
    using sub_block_comments_no_close by blast
  ultimately show ?thesis unfolding Cons by auto
qed

lemma sub_block_comments_open_only:
  "\<not> has_close t \<Longrightarrow> sub_block_comments (slash # star # t) = slash # star # t"
  by (simp add: find_close_None sub_block_comments_no_close1)

lemma sub_block_comments_no_open: "\<not> has_open s \<Longrightarrow> sub_block_comments s = s"
  by (induction s rule: sub_block_comments.induct) auto

lemma sub_block_comments_prefix:
  "\<not> has_open pre \<Longrightarrow>
   sub_block_comments (pre @ slash # star # t) = pre @ sub_block_comments (slash # star # t)"
proof (induction pre rule: sub_block_comments.induct)
  case 1
  show ?case by simp
next
  case (2 c)
  show ?case by simp
next
  case (3 a b cs)
  then show ?case by auto
qed

lemma sub_block_comments_first:
  assumes "\<not> has_open pre" and "\<not> has_close body"
  shows "sub_block_comments (pre @ str ''/*'' @ body @ str ''*/'' @ rest)
           = pre @ str '' '' @ sub_block_comments rest"
proof -
  have "sub_block_comments (pre @ slash # star # body @ star # slash # rest)
      = pre @ sub_block_comments (slash # star # body @ star # slash # rest)"
    using assms(1) by (rule sub_block_comments_prefix)
  also have "sub_block_comments (slash # star # body @ star # slash # rest)
      = str '' '' @ sub_block_comments rest"
    using find_close_first [OF assms(2)] by simp
  finally show ?thesis by (simp add: str_def)
qed

lemma sub_block_comments_unterminated:
  assumes "\<not> has_open pre" and "\<not> has_close tail"
  shows "sub_block_comments (pre @ str ''/*'' @ tail) = pre @ str ''/*'' @ tail"
  using sub_block_comments_prefix [OF assms(1), of tail]
    sub_block_comments_open_only [OF assms(2)] by (simp add: str_def)

lemma splitlines_step:
  assumes "\<forall>c\<in>set l. \<not> linebreak c" and "terminator sep rest"
  shows "splitlines (l @ sep @ rest) = l # splitlines rest"
proof -
  let ?P = "\<lambda>x. \<not> linebreak x"
  from assms(2) obtain b ms where sep: "sep = b # ms" and b: "linebreak b"
    by (cases "(sep, rest)" rule: terminator.cases) (auto simp: linebreak_def)
  have t: "takeWhile ?P (l @ sep @ rest) = l"
    unfolding sep using assms(1) b by (simp add: takeWhile_tail takeWhile_eq_all_conv)
  have d: "dropWhile ?P (l @ sep @ rest) = b # ms @ rest"
    unfolding sep using assms(1) b by (simp add: dropWhile_append3 dropWhile_eq_Nil_conv)
  obtain c cs where e: "l @ sep @ rest = c # cs"
    unfolding sep by (cases l) auto
  have next_text: "(if b = 13 \<and> take 1 (ms @ rest) = [newline] then drop 1 (ms @ rest)
      else ms @ rest) = rest"
    using assms(2) unfolding sep
    by (cases "(b # ms, rest)" rule: terminator.cases) auto
  have "splitlines (c # cs) = l # splitlines (if b = 13 \<and> take 1 (ms @ rest) = [newline]
      then drop 1 (ms @ rest) else ms @ rest)"
    unfolding splitlines.simps t [unfolded e] d [unfolded e] by (simp only: Let_def list.case)
  then show ?thesis unfolding e next_text .
qed

lemma splitlines_last:
  assumes "\<forall>c\<in>set l. \<not> linebreak c"
  shows "splitlines l = (if l = [] then [] else [l])"
proof (cases l)
  case Nil
  then show ?thesis by simp
next
  case (Cons c cs)
  have t: "takeWhile (\<lambda>x. \<not> linebreak x) (c # cs) = c # cs"
    using assms unfolding Cons by (simp add: takeWhile_eq_all_conv)
  have d: "dropWhile (\<lambda>x. \<not> linebreak x) (c # cs) = []"
    using assms unfolding Cons by (simp add: dropWhile_eq_Nil_conv)
  show ?thesis unfolding Cons splitlines.simps t d by simp
qed

lemma text_cases:
  "(\<forall>c\<in>set t. \<not> linebreak c)
   \<or> (\<exists>l sep rest. t = l @ sep @ rest \<and> (\<forall>c\<in>set l. \<not> linebreak c) \<and> terminator sep rest)"
proof (cases "dropWhile (\<lambda>x. \<not> linebreak x) t")
  case Nil
  then show ?thesis by (simp add: dropWhile_eq_Nil_conv)
next
  case (Cons b r)
  let ?l = "takeWhile (\<lambda>x. \<not> linebreak x) t"
  have l: "\<forall>c\<in>set ?l. \<not> linebreak c" by (auto dest: set_takeWhileD)
  have b: "linebreak b"
    using hd_dropWhile [of "\<lambda>x. \<not> linebreak x" t] Cons by simp
  have t: "t = ?l @ b # r" using Cons takeWhile_dropWhile_id [of "\<lambda>x. \<not> linebreak x" t] by simp
  show ?thesis
  proof (cases "b = 13 \<and> take 1 r = [newline]")
    case True
    then obtain r' where r: "r = newline # r'" by (cases r) auto
    from t r True have "t = ?l @ [13, newline] @ r'" by simp
    moreover have "terminator [13, newline] r'" by simp
    ultimately show ?thesis using l by blast
  next
    case False
    from t have "t = ?l @ [b] @ r" by simp
    moreover from b False have "terminator [b] r" by simp
    ultimately show ?thesis using l by blast
  qed
qed

lemma join_Cons: "join sep (x # xs) = (if xs = [] then x else x @ sep @ join sep xs)"
  by (cases xs) simp_all

lemma drop_comment_lines_step:
  assumes "\<forall>c\<in>set l. \<not> linebreak c" and "terminator sep rest"
  shows "drop_comment_lines (l @ sep @ rest)
           = (if startswith (strip l) (str ''--'') then drop_comment_lines rest
              else if filter (\<lambda>ln. \<not> startswith (strip ln) (str ''--'')) (splitlines rest) = []
                then l
              else l @ newline # drop_comment_lines rest)"
  unfolding drop_comment_lines_def splitlines_step [OF assms]
  by (simp add: join_Cons)

lemma drop_comment_lines_last:
  assumes "\<forall>c\<in>set l. \<not> linebreak c"
  shows "drop_comment_lines l = (if startswith (strip l) (str ''--'') then [] else l)"
  unfolding drop_comment_lines_def splitlines_last [OF assms]
  by (simp add: startswith_def strip_def lstrip_def rstrip_def str_def)

text \<open>
  Claim C3, as amended. With \<^verbatim>\<open>remove_comments\<close> set, the text (after the normalizer,
  when that is on) first goes through the block-comment pass and then through the line
  pass. The block-comment pass puts one space in place of the first \<^verbatim>\<open>/*\<close> of the text
  up to and including the first \<^verbatim>\<open>*/\<close> behind it, line breaks inside or not and whether
  or not it stands behind a double hyphen, and goes on with the rest; a text without
  \<^verbatim>\<open>/*\<close> stays as it is. The line pass takes the lines as \<^verbatim>\<open>splitlines\<close> has them:
  every text is a last line without line break, or a first line \<open>l\<close>, its terminator and
  the rest. A first line whose first non-whitespace characters are a double hyphen is
  dropped with its terminator; any other first line is kept character for character, a
  trailing double-hyphen comment included, and followed by one line feed when a line of
  the rest is kept. A last line is dropped or kept in the same way and gets no line feed.
\<close>
theorem remove_comments_passes:
  assumes "remove_comments opts"
    and "\<not> has_open pre" and "\<not> has_close body"
    and "\<not> has_open plain"
    and "\<forall>c\<in>set l. \<not> linebreak c" and "terminator sep rest"
  shows "preprocess opts sql
           = drop_comment_lines
               (sub_block_comments (if single_line_safe opts then dash_to_block sql else sql))
         \<and> sub_block_comments (pre @ str ''/*'' @ body @ str ''*/'' @ behind)
             = pre @ str '' '' @ sub_block_comments behind
         \<and> sub_block_comments plain = plain
         \<and> ((\<forall>c\<in>set t. \<not> linebreak c)
              \<or> (\<exists>l' sep' rest'. t = l' @ sep' @ rest' \<and> (\<forall>c\<in>set l'. \<not> linebreak c)
                    \<and> terminator sep' rest'))
         \<and> drop_comment_lines (l @ sep @ rest)
             = (if startswith (strip l) (str ''--'') then drop_comment_lines rest
                else if filter (\<lambda>ln. \<not> startswith (strip ln) (str ''--'')) (splitlines rest)
                        = []
                  then l
                else l @ newline # drop_comment_lines rest)
         \<and> drop_comment_lines l = (if startswith (strip l) (str ''--'') then [] else l)"
proof -
  have "preprocess opts sql
          = drop_comment_lines
              (sub_block_comments (if single_line_safe opts then dash_to_block sql else sql))"
    using assms(1) by (simp add: preprocess_def)
  moreover have "sub_block_comments (pre @ str ''/*'' @ body @ str ''*/'' @ behind)
             = pre @ str '' '' @ sub_block_comments behind"
    using assms(2,3) by (rule sub_block_comments_first)
  moreover have "sub_block_comments plain = plain"
    using assms(4) by (rule sub_block_comments_no_open)
  moreover note text_cases [of t]
  moreover note drop_comment_lines_step [OF assms(5,6)]
  moreover note drop_comment_lines_last [OF assms(5)]
  ultimately show ?thesis by blast
qed

theorem remove_comments_passes_witness:
  "remove_comments (default_options\<lparr>remove_comments := True\<rparr>)
   \<and> \<not> has_open (str ''SELECT 1 -- n'' @ newline # str ''  -- c'' @ newline # str ''FROM t '')
   \<and> \<not> has_close (str '' a'' @ newline # str ''b '')
   \<and> \<not> has_open (str '' x'')
   \<and> terminator [newline] (str ''  -- c'' @ newline # str ''FROM t   x'')
   \<and> terminator [13, newline] (str ''b'' @ [newline])
   \<and> preprocess (default_options\<lparr>remove_comments := True\<rparr>)
         (str ''SELECT 1 -- n'' @ newline # str ''  -- c'' @ newline # str ''FROM t /* a''
            @ newline # str ''b */ x'')
       = str ''SELECT 1 -- n'' @ newline # str ''FROM t   x''
   \<and> drop_comment_lines (str ''a -- x'' @ [13, newline] @ str ''b'' @ [newline])
       = str ''a -- x'' @ newline # str ''b''"
proof -
  let ?opts = "default_options\<lparr>remove_comments := True\<rparr>"
  let ?pre = "str ''SELECT 1 -- n'' @ newline # str ''  -- c'' @ newline # str ''FROM t ''"
  let ?body = "str '' a'' @ newline # str ''b ''"
  let ?l = "str ''SELECT 1 -- n''"
  let ?rest = "str ''  -- c'' @ newline # str ''FROM t   x''"
  let ?sql = "str ''SELECT 1 -- n'' @ newline # str ''  -- c'' @ newline # str ''FROM t /* a''
            @ newline # str ''b */ x''"
  have h1: "remove_comments ?opts" by simp
  have h2: "\<not> has_open ?pre" by (simp add: str_def)
  have h3: "\<not> has_close ?body" by (simp add: str_def)
  have h4: "\<not> has_open (str '' x'')" by (simp add: str_def)
  have h5: "\<forall>c\<in>set ?l. \<not> linebreak c" by (simp add: str_def linebreak_def)
  have h6: "terminator [newline] ?rest" by (simp add: linebreak_def)
  have g5: "\<forall>c\<in>set (str ''a -- x''). \<not> linebreak c" by (simp add: str_def linebreak_def)
  have g6: "terminator [13, newline] (str ''b'' @ [newline])" by simp
  note t = remove_comments_passes [OF h1 h2 h3 h4 h5 h6, of ?sql "str '' x''"]
  note u = remove_comments_passes [OF h1 h2 h3 h4 g5 g6]
  have e1: "?sql = ?pre @ str ''/*'' @ ?body @ str ''*/'' @ str '' x''" by (simp add: str_def)
  have e2: "?pre @ str '' '' @ str '' x'' = ?l @ [newline] @ ?rest" by (simp add: str_def)
  have l: "\<not> startswith (strip ?l) (str ''--'')"
    by (simp add: str_def startswith_def strip_def lstrip_def rstrip_def isspace_def)
  have r: "drop_comment_lines ?rest = str ''FROM t   x''"
    by (simp add: drop_comment_lines_def str_def linebreak_def startswith_def strip_def
        lstrip_def rstrip_def isspace_def)
  have k: "filter (\<lambda>ln. \<not> startswith (strip ln) (str ''--'')) (splitlines ?rest) \<noteq> []"
    by (simp add: str_def linebreak_def startswith_def strip_def lstrip_def rstrip_def
        isspace_def)
  have "preprocess ?opts ?sql = drop_comment_lines (sub_block_comments ?sql)"
    using t by (simp add: default_options_def)
  also have "sub_block_comments ?sql = ?pre @ str '' '' @ sub_block_comments (str '' x'')"
    unfolding e1 using t by blast
  also have "sub_block_comments (str '' x'') = str '' x''" using t by blast
  also have "drop_comment_lines (?pre @ str '' '' @ str '' x'')
      = ?l @ newline # drop_comment_lines ?rest"
    unfolding e2 using t l k by simp
  finally have first: "preprocess ?opts ?sql = str ''SELECT 1 -- n'' @ newline # str ''FROM t   x''"
    unfolding r .
  have l': "\<not> startswith (strip (str ''a -- x'')) (str ''--'')"
    by (simp add: str_def startswith_def strip_def lstrip_def rstrip_def isspace_def)
  have r': "drop_comment_lines (str ''b'' @ [newline]) = str ''b''"
    by (simp add: drop_comment_lines_def str_def linebreak_def startswith_def strip_def
        lstrip_def rstrip_def isspace_def)
  have k': "filter (\<lambda>ln. \<not> startswith (strip ln) (str ''--''))
      (splitlines (str ''b'' @ [newline])) \<noteq> []"
    by (simp add: str_def linebreak_def startswith_def strip_def lstrip_def rstrip_def
        isspace_def)
  have second: "drop_comment_lines (str ''a -- x'' @ [13, newline] @ str ''b'' @ [newline])
       = str ''a -- x'' @ newline # str ''b''"
    using u l' k' r' by simp
  from h1 h2 h3 h4 h6 g6 first second show ?thesis by blast
qed

text \<open>
  Claim C3 as the specification words it fails on a line whose trailing comment holds a
  complete block comment: the block-comment pass comes first and does not look for double
  hyphens, so \<^verbatim>\<open>SELECT 1 -- a /* b */ c\<close>, a line that does not start with a double
  hyphen, comes out as \<^verbatim>\<open>SELECT 1 -- a   c\<close>.
\<close>

theorem remove_comments_passes_counterexample:
  "remove_comments (default_options\<lparr>remove_comments := True\<rparr>)
   \<and> \<not> startswith (strip (str ''SELECT 1 -- a /* b */ c'')) (str ''--'')
   \<and> preprocess (default_options\<lparr>remove_comments := True\<rparr>) (str ''SELECT 1 -- a /* b */ c'')
       = str ''SELECT 1 -- a   c''
   \<and> preprocess (default_options\<lparr>remove_comments := True\<rparr>) (str ''SELECT 1 -- a /* b */ c'')
       \<noteq> str ''SELECT 1 -- a /* b */ c''"
  by (simp add: preprocess_def default_options_def drop_comment_lines_def str_def
      linebreak_def startswith_def strip_def lstrip_def rstrip_def isspace_def)

lemma sqlparse_calls:
  "snd (format_with_sqlparse (Some lib) opts sql)
     = [SqlparseFormat (preprocess opts sql) (format_kwargs_of opts)]"
  by (simp add: format_with_sqlparse_def Let_def split: sum.splits)

lemma sqlglot_first_call:
  "\<exists>more. snd (format_with_sqlglot lib opts sql)
     = (if compact opts then Transpile (preprocess opts sql) (compact_kwargs opts)
        else ParseOne (preprocess opts sql) (dialect opts)) # more"
  by (simp add: format_with_sqlglot_def parse_then_render_def Let_def split: sum.splits)

lemma sub_block_comments_closed_then_open:
  assumes "\<forall>(p, b)\<in>set cs. \<not> has_open p \<and> \<not> has_close b"
    and "\<not> has_open pre" and "\<not> has_close tail"
  shows "sub_block_comments
           (concat (map (\<lambda>(p, b). p @ str ''/*'' @ b @ str ''*/'') cs) @ pre @ str ''/*'' @ tail)
         = concat (map (\<lambda>(p, b). p @ str '' '') cs) @ pre @ str ''/*'' @ tail"
  using assms(1)
proof (induction cs)
  case Nil
  show ?case using assms(2,3) by (simp add: sub_block_comments_unterminated)
next
  case (Cons pb cs)
  obtain p b where pb: "pb = (p, b)" by (cases pb)
  from Cons.prems pb have p: "\<not> has_open p" and b: "\<not> has_close b" by auto
  from Cons have ih: "sub_block_comments
           (concat (map (\<lambda>(p, b). p @ str ''/*'' @ b @ str ''*/'') cs) @ pre @ str ''/*'' @ tail)
         = concat (map (\<lambda>(p, b). p @ str '' '') cs) @ pre @ str ''/*'' @ tail" by simp
  show ?case
    unfolding pb using sub_block_comments_first [OF p b] ih by simp
qed

text \<open>
  Claim C10. Let the text entering the block-comment pass (the input, or what the
  normalizer made of it when that is on) be complete comments, each after a part \<open>p\<close>
  without \<^verbatim>\<open>/*\<close> and with a body \<open>b\<close> without \<^verbatim>\<open>*/\<close>, then a part \<open>pre\<close> without
  \<^verbatim>\<open>/*\<close>, then an opening \<^verbatim>\<open>/*\<close> and a \<open>tail\<close> in which no \<^verbatim>\<open>*/\<close> follows. The pass
  replaces the complete comments and leaves the opening delimiter and the whole tail in
  place. With \<^verbatim>\<open>remove_comments\<close> set, what both formatting functions hand to their
  library is that text after the line pass, which drops only the lines that start with a
  double hyphen. The witness has one request with the normalizer off and one with it on.
\<close>
theorem unterminated_comment_kept:
  assumes "\<forall>(p, b)\<in>set cs. \<not> has_open p \<and> \<not> has_close b"
    and "\<not> has_open pre" and "\<not> has_close tail"
    and "remove_comments opts"
    and "(if single_line_safe opts then dash_to_block sql else sql)
           = concat (map (\<lambda>(p, b). p @ str ''/*'' @ b @ str ''*/'') cs) @ pre @ str ''/*'' @ tail"
  shows "sub_block_comments
           (concat (map (\<lambda>(p, b). p @ str ''/*'' @ b @ str ''*/'') cs) @ pre @ str ''/*'' @ tail)
         = concat (map (\<lambda>(p, b). p @ str '' '') cs) @ pre @ str ''/*'' @ tail
       \<and> preprocess opts sql
         = drop_comment_lines
             (concat (map (\<lambda>(p, b). p @ str '' '') cs) @ pre @ str ''/*'' @ tail)
       \<and> snd (format_with_sqlparse (Some plib) opts sql)
         = [SqlparseFormat
              (drop_comment_lines
                 (concat (map (\<lambda>(p, b). p @ str '' '') cs) @ pre @ str ''/*'' @ tail))
              (format_kwargs_of opts)]
       \<and> (\<exists>more. snd (format_with_sqlglot glib opts sql)
         = (if compact opts
            then Transpile
              (drop_comment_lines
                 (concat (map (\<lambda>(p, b). p @ str '' '') cs) @ pre @ str ''/*'' @ tail))
              (compact_kwargs opts)
            else ParseOne
              (drop_comment_lines
                 (concat (map (\<lambda>(p, b). p @ str '' '') cs) @ pre @ str ''/*'' @ tail))
              (dialect opts)) # more)"
proof -
  let ?text = "concat (map (\<lambda>(p, b). p @ str ''/*'' @ b @ str ''*/'') cs) @ pre @ str ''/*'' @ tail"
  let ?kept = "concat (map (\<lambda>(p, b). p @ str '' '') cs) @ pre @ str ''/*'' @ tail"
  have s: "sub_block_comments ?text = ?kept"
    using assms(1,2,3) by (rule sub_block_comments_closed_then_open)
  have "preprocess opts sql
      = drop_comment_lines
          (sub_block_comments (if single_line_safe opts then dash_to_block sql else sql))"
    using assms(4) by (simp add: preprocess_def)
  then have p: "preprocess opts sql = drop_comment_lines ?kept"
    unfolding assms(5) s .
  note c1 = sqlparse_calls [of plib opts sql, unfolded p]
  note c2 = sqlglot_first_call [of glib opts sql, unfolded p]
  from s p c1 c2 show ?thesis by blast
qed

theorem unterminated_comment_kept_witness:
  "\<not> has_open (str ''a '') \<and> \<not> has_close (str '' x '')
   \<and> \<not> has_open (str '' b '')
   \<and> \<not> has_close (str '' c'' @ newline # str ''-- d'' @ newline # str ''e'')
   \<and> remove_comments (default_options\<lparr>remove_comments := True\<rparr>)
   \<and> sub_block_comments
         (str ''a /* x */ b /* c'' @ newline # str ''-- d'' @ newline # str ''e'')
       = str ''a   b /* c'' @ newline # str ''-- d'' @ newline # str ''e''
   \<and> preprocess (default_options\<lparr>remove_comments := True\<rparr>)
         (str ''a /* x */ b /* c'' @ newline # str ''-- d'' @ newline # str ''e'')
       = str ''a   b /* c'' @ newline # str ''e''
   \<and> snd (format_with_sqlparse (Some echo_sqlparse) (default_options\<lparr>remove_comments := True\<rparr>)
         (str ''a /* x */ b /* c'' @ newline # str ''-- d'' @ newline # str ''e'')
         :: (pystr, unit) outcome)
       = [SqlparseFormat (str ''a   b /* c'' @ newline # str ''e'')
            (format_kwargs_of (default_options\<lparr>remove_comments := True\<rparr>))]
   \<and> (\<exists>more. snd (format_with_sqlglot failing_sqlglot (default_options\<lparr>remove_comments := True\<rparr>)
         (str ''a /* x */ b /* c'' @ newline # str ''-- d'' @ newline # str ''e''))
       = ParseOne (str ''a   b /* c'' @ newline # str ''e'') (str ''spark'') # more)
   \<and> remove_comments (default_options\<lparr>remove_comments := True, single_line_safe := True\<rparr>)
   \<and> single_line_safe (default_options\<lparr>remove_comments := True, single_line_safe := True\<rparr>)
   \<and> dash_to_block (str ''a -- n'' @ newline # str ''b /* c'')
       = str ''a /* n */'' @ newline # str ''b /* c''
   \<and> preprocess (default_options\<lparr>remove_comments := True, single_line_safe := True\<rparr>)
         (str ''a -- n'' @ newline # str ''b /* c'')
       = str ''a  '' @ newline # str ''b /* c''"
proof -
  let ?opts = "default_options\<lparr>remove_comments := True\<rparr>"
  let ?cs = "[(str ''a '', str '' x '')]"
  let ?tail = "str '' c'' @ newline # str ''-- d'' @ newline # str ''e''"
  let ?text = "str ''a /* x */ b /* c'' @ newline # str ''-- d'' @ newline # str ''e''"
  let ?kept = "str ''a   b /* c'' @ newline # str ''-- d'' @ newline # str ''e''"
  let ?sent = "str ''a   b /* c'' @ newline # str ''e''"
  have h0: "\<not> has_open (str ''a '') \<and> \<not> has_close (str '' x '')" by (simp add: str_def)
  have h1: "\<forall>(p, b)\<in>set ?cs. \<not> has_open p \<and> \<not> has_close b" by (simp add: str_def)
  have h2: "\<not> has_open (str '' b '')" by (simp add: str_def)
  have h3: "\<not> has_close ?tail" by (simp add: str_def)
  have h4: "remove_comments ?opts" by simp
  have e1: "concat (map (\<lambda>(p, b). p @ str ''/*'' @ b @ str ''*/'') ?cs) @ str '' b '' @ str ''/*'' @ ?tail
      = ?text" by (simp add: str_def)
  have h5: "(if single_line_safe ?opts then dash_to_block ?text else ?text)
      = concat (map (\<lambda>(p, b). p @ str ''/*'' @ b @ str ''*/'') ?cs) @ str '' b '' @ str ''/*'' @ ?tail"
    unfolding e1 by (simp add: default_options_def)
  have e2: "concat (map (\<lambda>(p, b). p @ str '' '') ?cs) @ str '' b '' @ str ''/*'' @ ?tail = ?kept"
    by (simp add: str_def)
  have e3: "drop_comment_lines ?kept = ?sent"
    by (simp add: drop_comment_lines_def str_def linebreak_def startswith_def strip_def
        lstrip_def rstrip_def isspace_def)
  have e4: "compact ?opts = False" "dialect ?opts = str ''spark''"
    by (simp_all add: default_options_def)
  note t = unterminated_comment_kept [OF h1 h2 h3 h4 h5, of echo_sqlparse failing_sqlglot,
      unfolded e1 e2 e3 e4 if_False]
  let ?on = "default_options\<lparr>remove_comments := True, single_line_safe := True\<rparr>"
  let ?sql = "str ''a -- n'' @ newline # str ''b /* c''"
  let ?cs' = "[(str ''a '', str '' n '')]"
  let ?pre' = "newline # str ''b ''"
  have g0: "remove_comments ?on" "single_line_safe ?on" by simp_all
  have g1: "\<forall>(p, b)\<in>set ?cs'. \<not> has_open p \<and> \<not> has_close b" by (simp add: str_def)
  have g2: "\<not> has_open ?pre'" by (simp add: str_def)
  have g3: "\<not> has_close (str '' c'')" by (simp add: str_def)
  have d: "dash_to_block ?sql = str ''a /* n */'' @ newline # str ''b /* c''"
    by (simp add: str_def strip_def lstrip_def rstrip_def isspace_def)
  have g5: "(if single_line_safe ?on then dash_to_block ?sql else ?sql)
      = concat (map (\<lambda>(p, b). p @ str ''/*'' @ b @ str ''*/'') ?cs') @ ?pre' @ str ''/*'' @ str '' c''"
    unfolding d by (simp add: str_def)
  have f2: "concat (map (\<lambda>(p, b). p @ str '' '') ?cs') @ ?pre' @ str ''/*'' @ str '' c''
      = str ''a  '' @ newline # str ''b /* c''"
    by (simp add: str_def)
  have f3: "drop_comment_lines (str ''a  '' @ newline # str ''b /* c'')
      = str ''a  '' @ newline # str ''b /* c''"
    by (simp add: drop_comment_lines_def str_def linebreak_def startswith_def strip_def
        lstrip_def rstrip_def isspace_def)
  from unterminated_comment_kept [OF g1 g2 g3 g0(1) g5, unfolded f2 f3]
  have on: "preprocess ?on ?sql = str ''a  '' @ newline # str ''b /* c''" by blast
  from h0 h2 h3 h4 t g0 d on show ?thesis by blast
qed

section \<open>Properties of the formatting functions\<close>

lemma rstrip_append_keep: "\<exists>x\<in>set r. \<not> isspace x \<Longrightarrow> rstrip (w @ r) = w @ rstrip r"
  unfolding rstrip_def by (auto simp: dropWhile_append1)

lemma rstrip_append_drop: "\<forall>x\<in>set r. isspace x \<Longrightarrow> rstrip (w @ r) = rstrip w"
  unfolding rstrip_def by (simp add: dropWhile_append)

lemma rstrip_Cons: "\<not> isspace h \<Longrightarrow> rstrip (h # u) = h # rstrip u"
  unfolding rstrip_def by (simp add: dropWhile_append)

lemma rstrip_nospace: "\<forall>x\<in>set w. \<not> isspace x \<Longrightarrow> rstrip w = w"
  by (induction w) (simp_all add: rstrip_Cons, simp add: rstrip_def)

lemma collapse_runs_nospace:
  "\<forall>x\<in>set w. \<not> isspace x \<Longrightarrow> collapse_runs (w @ t) = w @ collapse_runs t"
  by (induction w) simp_all

lemma lstrip_rstrip: "dropWhile isspace (rstrip t) = rstrip (dropWhile isspace t)"
proof (induction t)
  case Nil
  show ?case by (simp add: rstrip_def)
next
  case (Cons a t)
  show ?case
  proof (cases "isspace a")
    case False
    then show ?thesis by (simp add: rstrip_Cons)
  next
    case True
    show ?thesis
    proof (cases "\<forall>x\<in>set t. isspace x")
      case all: True
      with True have "rstrip ([] @ a # t) = rstrip []" by (intro rstrip_append_drop) simp
      then have e1: "rstrip (a # t) = []" by (simp add: rstrip_def)
      from all True have e2: "dropWhile isspace (a # t) = []" by simp
      have e3: "rstrip [] = []" by (simp add: rstrip_def)
      show ?thesis unfolding e1 e2 e3 by simp
    next
      case False
      then have "rstrip ([a] @ t) = [a] @ rstrip t" by (intro rstrip_append_keep) simp
      with True Cons show ?thesis by simp
    qed
  qed
qed

lemma join_split: "join (str '' '') (split s) = collapse_runs (strip s)"
proof (induction s rule: split.induct)
  case (1 s)
  show ?case
  proof (cases "dropWhile isspace s")
    case Nil
    then have "split s = []" by (subst split.simps) (simp only: list.case)
    moreover have "strip s = []" unfolding strip_def lstrip_def Nil by (simp add: rstrip_def)
    ultimately show ?thesis by simp
  next
    case (Cons c cs)
    let ?ns = "\<lambda>x. \<not> isspace x"
    define w where "w = c # takeWhile ?ns cs"
    define r where "r = dropWhile ?ns cs"
    have c: "\<not> isspace c"
      using hd_dropWhile [of isspace s] Cons by simp
    have wr: "c # cs = w @ r" by (simp add: w_def r_def)
    have w: "\<forall>x\<in>set w. \<not> isspace x"
      unfolding w_def using c by (auto dest: set_takeWhileD)
    have sp: "split s = w # split r"
      using Cons c by (subst split.simps) (simp add: w_def r_def)
    have st: "strip s = rstrip (w @ r)"
      unfolding strip_def lstrip_def Cons wr ..
    have ih: "join (str '' '') (split r) = collapse_runs (strip r)"
      using "1.IH" [OF Cons] unfolding r_def .
    show ?thesis
    proof (cases "dropWhile isspace r")
      case Nil
      then have all: "\<forall>x\<in>set r. isspace x" by (simp add: dropWhile_eq_Nil_conv)
      from Nil have "split r = []" by (subst split.simps) (simp only: list.case)
      moreover have "rstrip (w @ r) = w"
        using all w by (simp add: rstrip_append_drop rstrip_nospace)
      moreover have "collapse_runs (w @ []) = w @ collapse_runs []"
        using w by (rule collapse_runs_nospace)
      ultimately show ?thesis by (simp add: sp st)
    next
      case d: (Cons y ys)
      then have ne: "split r \<noteq> []" by (subst split.simps) simp
      from d have ex: "\<exists>x\<in>set r. \<not> isspace x"
        by (metis dropWhile_eq_Nil_conv list.distinct(1))
      then obtain a r1 where r: "r = a # r1" by (cases r) auto
      have a: "isspace a"
        using hd_dropWhile [of ?ns cs] r unfolding r_def by simp
      from ex a r have ex1: "\<exists>x\<in>set r1. \<not> isspace x" by auto
      have "rstrip ([a] @ r1) = [a] @ rstrip r1" using ex1 by (rule rstrip_append_keep)
      then have rr: "rstrip r = a # rstrip r1" by (simp add: r)
      have "strip r = rstrip (dropWhile isspace r1)"
        unfolding strip_def lstrip_def r using a by simp
      also have "\<dots> = dropWhile isspace (rstrip r1)" by (rule lstrip_rstrip [symmetric])
      finally have sr: "strip r = dropWhile isspace (rstrip r1)" .
      have "collapse_runs (strip s) = w @ collapse_runs (rstrip r)"
        unfolding st rstrip_append_keep [OF ex] using w by (rule collapse_runs_nospace)
      also have "collapse_runs (rstrip r) = 32 # collapse_runs (strip r)"
        unfolding rr sr using a by simp
      finally have rhs: "collapse_runs (strip s) = w @ 32 # collapse_runs (strip r)" .
      obtain x xs where xs: "split r = x # xs" using ne by (cases "split r") auto
      have "join (str '' '') (split s) = w @ str '' '' @ join (str '' '') (split r)"
        unfolding sp xs by simp
      then show ?thesis unfolding ih rhs by (simp add: str_def)
    qed
  qed
qed

lemma parse_then_render_no_transpile:
  "filter is_transpile (snd (parse_then_render lib opts sql)) = []"
  by (simp add: parse_then_render_def split: sum.splits)

lemma format_with_sqlglot_retry:
  assumes "\<not> compact opts"
    and "fst (parse_then_render lib opts (preprocess opts sql)) = Inl e1"
  shows "format_with_sqlglot lib opts sql
           = (case first_item (transpile lib (preprocess opts sql) (retry_kwargs opts)) of
                Inr r \<Rightarrow> Inr r
              | Inl e2 \<Rightarrow> Inl e1,
              snd (parse_then_render lib opts (preprocess opts sql))
                @ [Transpile (preprocess opts sql) (retry_kwargs opts)])"
proof -
  obtain calls where "parse_then_render lib opts (preprocess opts sql) = (Inl e1, calls)"
    using assms(2) by (cases "parse_then_render lib opts (preprocess opts sql)") auto
  then show ?thesis
    using assms(1) by (simp add: format_with_sqlglot_def Let_def split: sum.splits)
qed

text \<open>
  Claim C2. In pretty mode, when the parse-then-render path raises \<open>e1\<close> (the parser
  raises, or the renderer does), the calls made are those of that path followed by one call
  of \<^verbatim>\<open>transpile\<close> with \<^verbatim>\<open>pretty=True\<close>: exactly one \<^verbatim>\<open>transpile\<close> call. When that call
  returns, its first item is the result; when it raises (or returns no item), the error
  raised is \<open>e1\<close>, not the error of the retry. The witness has a library whose retry
  raises another error and a library whose retry returns.
\<close>
theorem pretty_retry_once:
  assumes "\<not> compact opts"
    and "fst (parse_then_render lib opts (preprocess opts sql)) = Inl e1"
  shows "snd (format_with_sqlglot lib opts sql)
           = snd (parse_then_render lib opts (preprocess opts sql))
               @ [Transpile (preprocess opts sql) (retry_kwargs opts)]
         \<and> length (filter is_transpile (snd (format_with_sqlglot lib opts sql))) = 1
         \<and> tp_pretty (retry_kwargs opts)
         \<and> fst (format_with_sqlglot lib opts sql)
             = (case first_item (transpile lib (preprocess opts sql) (retry_kwargs opts)) of
                  Inr r \<Rightarrow> Inr r
                | Inl e2 \<Rightarrow> Inl e1)"
proof -
  note f = format_with_sqlglot_retry [OF assms]
  have "length (filter is_transpile (snd (format_with_sqlglot lib opts sql))) = 1"
    unfolding f by (simp add: parse_then_render_no_transpile)
  moreover have "tp_pretty (retry_kwargs opts)" by (simp add: retry_kwargs_def)
  ultimately show ?thesis unfolding f by simp
qed

theorem pretty_retry_once_witness:
  "\<not> compact default_options
   \<and> fst (parse_then_render failing_sqlglot default_options
            (preprocess default_options (str ''select ('')))
       = Inl (LibraryError (str ''ParseError''))
   \<and> fst (parse_then_render transpile_only_sqlglot default_options
            (preprocess default_options (str ''select ('')))
       = Inl (LibraryError (str ''ParseError''))
   \<and> format_with_sqlglot failing_sqlglot default_options (str ''select ('')
       = (Inl (LibraryError (str ''ParseError'')),
          [ParseOne (str ''select ('') (str ''spark''),
           Transpile (str ''select ('')
             \<lparr>tp_read = str ''spark'', tp_pretty = True, tp_identity = None\<rparr>])
   \<and> format_with_sqlglot transpile_only_sqlglot default_options (str ''select ('')
       = (Inr (str ''select (''),
          [ParseOne (str ''select ('') (str ''spark''),
           Transpile (str ''select ('')
             \<lparr>tp_read = str ''spark'', tp_pretty = True, tp_identity = None\<rparr>])"
proof -
  let ?e = "LibraryError (str ''ParseError'') :: pystr exn"
  have h1: "\<not> compact default_options" by (simp add: default_options_def)
  have p: "preprocess default_options (str ''select ('') = str ''select (''"
    by (simp add: preprocess_def default_options_def)
  have d: "dialect default_options = str ''spark''" by (simp add: default_options_def)
  have r: "retry_kwargs default_options
      = \<lparr>tp_read = str ''spark'', tp_pretty = True, tp_identity = None\<rparr>"
    by (simp add: retry_kwargs_def default_options_def)
  have a: "parse_then_render failing_sqlglot default_options (str ''select ('')
      = (Inl ?e, [ParseOne (str ''select ('') (str ''spark'')])"
    by (simp add: parse_then_render_def failing_sqlglot_def d)
  have b: "parse_then_render transpile_only_sqlglot default_options (str ''select ('')
      = (Inl ?e, [ParseOne (str ''select ('') (str ''spark'')])"
    by (simp add: parse_then_render_def transpile_only_sqlglot_def d)
  have h2: "fst (parse_then_render failing_sqlglot default_options
      (preprocess default_options (str ''select (''))) = Inl ?e"
    unfolding p a by simp
  have h3: "fst (parse_then_render transpile_only_sqlglot default_options
      (preprocess default_options (str ''select (''))) = Inl ?e"
    unfolding p b by simp
  have t1: "first_item (transpile failing_sqlglot (str ''select ('')
      \<lparr>tp_read = str ''spark'', tp_pretty = True, tp_identity = None\<rparr>)
      = Inl (LibraryError (str ''TokenError''))"
    by (simp add: first_item_def failing_sqlglot_def)
  have t2: "first_item (transpile transpile_only_sqlglot (str ''select ('')
      \<lparr>tp_read = str ''spark'', tp_pretty = True, tp_identity = None\<rparr>)
      = Inr (str ''select ('')"
    by (simp add: first_item_def transpile_only_sqlglot_def)
  from pretty_retry_once [OF h1 h2]
  have "format_with_sqlglot failing_sqlglot default_options (str ''select ('')
       = (Inl ?e,
          [ParseOne (str ''select ('') (str ''spark''),
           Transpile (str ''select ('')
             \<lparr>tp_read = str ''spark'', tp_pretty = True, tp_identity = None\<rparr>])"
    unfolding p a r t1 by (simp add: prod_eq_iff)
  moreover from pretty_retry_once [OF h1 h3]
  have "format_with_sqlglot transpile_only_sqlglot default_options (str ''select ('')
       = (Inr (str ''select (''),
          [ParseOne (str ''select ('') (str ''spark''),
           Transpile (str ''select ('')
             \<lparr>tp_read = str ''spark'', tp_pretty = True, tp_identity = None\<rparr>])"
    unfolding p b r t2 by (simp add: prod_eq_iff)
  ultimately show ?thesis using h1 h2 h3 by blast
qed

text \<open>
  Claim C4, as amended. In compact mode, when the \<^verbatim>\<open>transpile\<close> call raises (or returns
  no item), the function returns, without an error, the normalized and stripped text with
  its leading and trailing whitespace removed and every maximal run of whitespace that
  remains replaced by a single space; the one library call made is that \<^verbatim>\<open>transpile\<close>
  call.
\<close>
theorem compact_recovery:
  assumes "compact opts"
    and "first_item (transpile lib (preprocess opts sql) (compact_kwargs opts)) = Inl e"
  shows "format_with_sqlglot lib opts sql
           = (Inr (collapse_runs (strip (preprocess opts sql))),
              [Transpile (preprocess opts sql) (compact_kwargs opts)])"
  using assms by (simp add: format_with_sqlglot_def Let_def join_split)

theorem compact_recovery_witness:
  "compact (default_options\<lparr>compact := True\<rparr>)
   \<and> first_item (transpile failing_sqlglot
         (preprocess (default_options\<lparr>compact := True\<rparr>) (str '' select  1 ''))
         (compact_kwargs (default_options\<lparr>compact := True\<rparr>)))
       = Inl (LibraryError (str ''TokenError''))
   \<and> format_with_sqlglot failing_sqlglot (default_options\<lparr>compact := True\<rparr>)
         (str '' select  1 '')
       = (Inr (str ''select 1''),
          [Transpile (str '' select  1 '')
             \<lparr>tp_read = str ''spark'', tp_pretty = False, tp_identity = Some True\<rparr>])"
proof -
  let ?opts = "default_options\<lparr>compact := True\<rparr>"
  have h1: "compact ?opts" by simp
  have p: "preprocess ?opts (str '' select  1 '') = str '' select  1 ''"
    by (simp add: preprocess_def default_options_def)
  have k: "compact_kwargs ?opts
      = \<lparr>tp_read = str ''spark'', tp_pretty = False, tp_identity = Some True\<rparr>"
    by (simp add: compact_kwargs_def default_options_def)
  have h2: "first_item (transpile failing_sqlglot (preprocess ?opts (str '' select  1 ''))
      (compact_kwargs ?opts)) = Inl (LibraryError (str ''TokenError''))"
    by (simp add: first_item_def failing_sqlglot_def)
  have c: "collapse_runs (strip (str '' select  1 '')) = str ''select 1''"
    by (simp add: str_def strip_def lstrip_def rstrip_def isspace_def)
  from compact_recovery [OF h1 h2] h1 h2 show ?thesis
    unfolding p k c by blast
qed

text \<open>
  Claim C4 as the specification words it fails on a text that starts with whitespace: on
  \<^verbatim>\<open> select (\<close> the code returns \<^verbatim>\<open>select (\<close>, whereas replacing every run of
  whitespace by one space keeps a space in front.
\<close>

theorem compact_recovery_counterexample:
  "compact (default_options\<lparr>compact := True\<rparr>)
   \<and> first_item (transpile failing_sqlglot
         (preprocess (default_options\<lparr>compact := True\<rparr>) (str '' select (''))
         (compact_kwargs (default_options\<lparr>compact := True\<rparr>)))
       = Inl (LibraryError (str ''TokenError''))
   \<and> fst (format_with_sqlglot failing_sqlglot (default_options\<lparr>compact := True\<rparr>) (str '' select (''))
       = Inr (str ''select ('')
   \<and> collapse_runs (preprocess (default_options\<lparr>compact := True\<rparr>) (str '' select ('')) = str '' select (''
   \<and> fst (format_with_sqlglot failing_sqlglot (default_options\<lparr>compact := True\<rparr>) (str '' select (''))
       \<noteq> Inr (collapse_runs (preprocess (default_options\<lparr>compact := True\<rparr>) (str '' select ('')))"
proof -
  let ?opts = "default_options\<lparr>compact := True\<rparr>"
  have p: "preprocess ?opts (str '' select ('') = str '' select (''"
    by (simp add: preprocess_def default_options_def)
  have h2: "first_item (transpile failing_sqlglot (preprocess ?opts (str '' select (''))
      (compact_kwargs ?opts)) = Inl (LibraryError (str ''TokenError''))"
    by (simp add: first_item_def failing_sqlglot_def)
  have s: "join (str '' '') (split (str '' select ('')) = str ''select (''"
    by (simp add: split.simps str_def isspace_def)
  have f: "fst (format_with_sqlglot failing_sqlglot ?opts (str '' select ('')) = Inr (str ''select ('')"
    using h2 unfolding p by (simp add: format_with_sqlglot_def Let_def p s)
  have c: "collapse_runs (str '' select ('') = str '' select (''"
    by (simp add: str_def isspace_def)
  have n: "str ''select ('' \<noteq> str '' select (''" by (simp add: str_def)
  show ?thesis unfolding f using h2 n unfolding p c by simp
qed

lemma preprocess_keyword_case [simp]:
  "preprocess (opts\<lparr>keyword_case := k\<rparr>) sql = preprocess opts sql"
  by (simp add: preprocess_def)

lemma capitalize_kwargs:
  "keyword_case opts = Capitalize \<Longrightarrow>
   format_kwargs_of opts = format_kwargs_of (opts\<lparr>keyword_case := Upper\<rparr>)"
  by (simp add: format_kwargs_of_def kw_case_def upper_ascii_def lower_ascii_def str_def)

lemma capitalize_sqlparse:
  "keyword_case opts = Capitalize \<Longrightarrow>
   format_with_sqlparse have_sqlparse opts sql
     = format_with_sqlparse have_sqlparse (opts\<lparr>keyword_case := Upper\<rparr>) sql"
proof -
  assume "keyword_case opts = Capitalize"
  then have k: "format_kwargs_of (opts\<lparr>keyword_case := Upper\<rparr>) = format_kwargs_of opts"
    by (rule capitalize_kwargs [symmetric])
  show ?thesis unfolding format_with_sqlparse_def k preprocess_keyword_case ..
qed

text \<open>
  Claim C7. With \<^verbatim>\<open>keyword_case\<close> set to capitalize, the keyword case handed to
  \<^verbatim>\<open>sqlparse.format\<close> is \<^verbatim>\<open>upper\<close>; the function makes that one call and returns or
  raises what the call returns or raises, nothing else; and the outcome, of the function
  and of the button when \<^verbatim>\<open>sqlglot\<close> is absent, is the outcome of the same request with
  \<^verbatim>\<open>keyword_case\<close> set to upper.
\<close>
theorem capitalize_mapped_to_upper:
  assumes "keyword_case opts = Capitalize"
  shows "sp_keyword_case (format_kwargs_of opts) = str ''upper''
         \<and> format_with_sqlparse (Some lib) opts sql
             = (case sqlparse_format lib (preprocess opts sql) (format_kwargs_of opts) of
                  Inl e \<Rightarrow> Inl (LibraryError e)
                | Inr r \<Rightarrow> Inr r,
                [SqlparseFormat (preprocess opts sql) (format_kwargs_of opts)])
         \<and> format_with_sqlparse (Some lib) opts sql
             = format_with_sqlparse (Some lib) (opts\<lparr>keyword_case := Upper\<rparr>) sql
         \<and> apply_btn None (Some lib) opts sql
             = apply_btn None (Some lib) (opts\<lparr>keyword_case := Upper\<rparr>) sql"
proof -
  have "sp_keyword_case (format_kwargs_of opts) = str ''upper''"
    using assms by (simp add: format_kwargs_of_def kw_case_def lower_ascii_def str_def)
  moreover have "format_with_sqlparse (Some lib) opts sql
             = (case sqlparse_format lib (preprocess opts sql) (format_kwargs_of opts) of
                  Inl e \<Rightarrow> Inl (LibraryError e)
                | Inr r \<Rightarrow> Inr r,
                [SqlparseFormat (preprocess opts sql) (format_kwargs_of opts)])"
    by (simp add: format_with_sqlparse_def Let_def split: sum.splits)
  moreover have "apply_btn None (Some lib) opts sql
             = apply_btn None (Some lib) (opts\<lparr>keyword_case := Upper\<rparr>) sql"
    unfolding apply_btn_def by (simp add: capitalize_sqlparse [OF assms])
  moreover have "format_with_sqlparse (Some lib) opts sql
             = format_with_sqlparse (Some lib) (opts\<lparr>keyword_case := Upper\<rparr>) sql"
    using assms by (rule capitalize_sqlparse)
  ultimately show ?thesis by blast
qed

theorem capitalize_mapped_to_upper_witness:
  "keyword_case (default_options\<lparr>keyword_case := Capitalize\<rparr>) = Capitalize
   \<and> format_with_sqlparse (Some echo_sqlparse) (default_options\<lparr>keyword_case := Capitalize\<rparr>)
         (str ''select 1'')
       = (Inr (str ''select 1''),
          [SqlparseFormat (str ''select 1'')
             \<lparr>sp_keyword_case = str ''upper'', sp_reindent = True,
              sp_indent_width = Some 4, sp_strip_comments = False\<rparr>] :: unit call list)"
proof -
  let ?opts = "default_options\<lparr>keyword_case := Capitalize\<rparr>"
  have h: "keyword_case ?opts = Capitalize" by simp
  have p: "preprocess ?opts (str ''select 1'') = str ''select 1''"
    by (simp add: preprocess_def default_options_def)
  have k: "format_kwargs_of ?opts
      = \<lparr>sp_keyword_case = sp_keyword_case (format_kwargs_of ?opts), sp_reindent = True,
         sp_indent_width = Some 4, sp_strip_comments = False\<rparr>"
    by (simp add: format_kwargs_of_def default_options_def)
  note t = capitalize_mapped_to_upper [OF h, of echo_sqlparse "str ''select 1''"]
  from t have u: "sp_keyword_case (format_kwargs_of ?opts) = str ''upper''" by blast
  from t have "format_with_sqlparse (Some echo_sqlparse) ?opts (str ''select 1'')
      = (case sqlparse_format echo_sqlparse (preprocess ?opts (str ''select 1''))
               (format_kwargs_of ?opts) of
           Inl e \<Rightarrow> Inl (LibraryError e) | Inr r \<Rightarrow> Inr r,
         [SqlparseFormat (preprocess ?opts (str ''select 1'')) (format_kwargs_of ?opts)])"
    by blast
  then have "format_with_sqlparse (Some echo_sqlparse) ?opts (str ''select 1'')
       = (Inr (str ''select 1''),
          [SqlparseFormat (str ''select 1'')
             \<lparr>sp_keyword_case = str ''upper'', sp_reindent = True,
              sp_indent_width = Some 4, sp_strip_comments = False\<rparr>])"
    unfolding p using k u by (simp add: echo_sqlparse_def)
  with h show ?thesis by blast
qed

text \<open>
  Claim C8. Without \<^verbatim>\<open>sqlparse\<close>, \<open>format_with_sqlparse\<close> raises the error
  \<^verbatim>\<open>Neither sqlglot nor sqlparse available.\<close> on every text, before any library call. With
  neither library, the button shows that error for every text that is not blank (a blank
  text gets the warning and is not formatted), and never shows formatted text.
\<close>
theorem no_backend_available:
  "format_with_sqlparse None opts sql
     = (Inl (RuntimeError (str ''Neither sqlglot nor sqlparse available.'')), [])
   \<and> apply_btn None None opts sql
       = (if sql = [] \<or> strip sql = [] then (Warning, [])
          else (Error (RuntimeError (str ''Neither sqlglot nor sqlparse available.'')), []))
   \<and> fst (apply_btn None None opts sql) \<noteq> Code out"
  by (simp add: format_with_sqlparse_def apply_btn_def)


end
